theory Spec2Isabelle
  imports Complex_Main "HOL-Library.AList" "HOL-Library.Log_Nat"
begin

section \<open>Heart-rate zone and metrics engine (hr\_controller.py, class HRController)\<close>

text \<open>
  The embedding follows \<^verbatim>\<open>HR_APP_v.7/heart-rate-workout-app/hr_controller.py\<close>.

  Integers. Heart rates, the age and the zone bounds are Python integers, modelled as
  \<open>int\<close>.

  Floats. A Python float is an IEEE 754 binary64 number. It is modelled by its exact value,
  a rational, and every operation that yields a float rounds its exact result to the
  nearest number with a significand of 53 bits, a tie to the even significand
  (\<open>fl\<close>). A decimal literal such as \<open>0.6\<close> is the float nearest to it,
  \<open>fl (3 / 5)\<close>. The exponent range is not bounded in the model: overflow to infinity
  (or OverflowError), underflow and NaN are outside it.

  Errors. A Python exception is a value \<open>Inl e\<close> of the result type; the two that
  the arithmetic and the dictionary reads of this class can raise are modelled.

  State. Every method takes the object (\<open>self\<close>) and, when it returns normally,
  returns its result together with the object as the method left it.
\<close>

datatype py_error = KeyError | ZeroDivisionError

subsection \<open>Python numbers\<close>

text \<open>
  The built-in \<open>round\<close> of Python 3 on a float: the nearest integer, a tie to the even
  neighbour.
\<close>

definition py_round :: "rat \<Rightarrow> int" where
  "py_round x =
     (let f = \<lfloor>x\<rfloor>; d = x - of_int f
      in if d < 1 / 2 then f
         else if 1 / 2 < d then f + 1
         else if even f then f else f + 1)"

text \<open>The binary exponent of a positive number: \<open>2 ^ ilog2 x \<le> x < 2 ^ (ilog2 x + 1)\<close>.\<close>

definition ilog2 :: "rat \<Rightarrow> int" where
  "ilog2 x = (if 1 \<le> x then bitlen \<lfloor>x\<rfloor> - 1 else - bitlen (\<lceil>1 / x\<rceil> - 1))"

text \<open>Rounding to binary64 precision: to a multiple of \<open>2 ^ (ilog2 \<bar>x\<bar> - 52)\<close>.\<close>

definition fl :: "rat \<Rightarrow> rat" where
  "fl x =
     (if x = 0 then 0
      else (let q = ilog2 \<bar>x\<bar> - 52
            in of_int (py_round (x / 2 powi q)) * 2 powi q))"

text \<open>
  The conversion of an integer operand of a mixed operation, and the float operations
  \<open>*\<close> and \<open>+\<close>.
\<close>

definition float_of_int :: "int \<Rightarrow> rat" where
  "float_of_int n = fl (of_int n)"

definition fmul :: "rat \<Rightarrow> rat \<Rightarrow> rat" where
  "fmul a b = fl (a * b)"

definition fadd :: "rat \<Rightarrow> rat \<Rightarrow> rat" where
  "fadd a b = fl (a + b)"

text \<open>
  True division \<open>a / b\<close> of two Python integers: the float nearest to the quotient, or
  ZeroDivisionError.
\<close>

definition py_truediv :: "int \<Rightarrow> int \<Rightarrow> py_error + rat" where
  "py_truediv a b = (if b = 0 then Inl ZeroDivisionError else Inr (fl (of_int a / of_int b)))"

subsection \<open>The object\<close>

text \<open>
  One entry of \<open>self.zones\<close> is the dictionary \<open>{"min": .., "max": ..}\<close>, a record
  here. \<open>self.zones\<close> itself is a dictionary keyed by the zone number, kept as an
  association list in insertion order; it is empty until \<open>calculate_zones\<close> runs.
\<close>

record zone =
  zone_min :: int
  zone_max :: int

record hr_controller =
  zones :: "(int \<times> zone) list"
  current_zone :: int
  resting_hr :: int
  max_hr :: int
  weight_kg :: int

text \<open>\<open>HRController.__init__\<close>\<close>

definition init :: hr_controller where
  "init = \<lparr>zones = [], current_zone = 0, resting_hr = 60, max_hr = 190, weight_kg = 70\<rparr>"

text \<open>The subscript \<open>self.zones[k]\<close>: KeyError when the key is missing.\<close>

definition zone_lookup :: "(int \<times> zone) list \<Rightarrow> int \<Rightarrow> py_error + zone" where
  "zone_lookup zs k = (case map_of zs k of None \<Rightarrow> Inl KeyError | Some z \<Rightarrow> Inr z)"

subsection \<open>calculate\_zones\<close>

text \<open>
  \<open>if not max_hr\<close> is true for \<open>None\<close> and for \<open>0\<close>; both take the estimate
  \<open>220 - age\<close>. The method stores the table, the resting and the maximum heart rate
  and returns the table. It raises nothing.
\<close>

definition calculate_zones ::
  "hr_controller \<Rightarrow> int \<Rightarrow> int \<Rightarrow> int option \<Rightarrow> (int \<times> zone) list \<times> hr_controller" where
  "calculate_zones self age resting_hr_arg max_hr_arg =
     (let max_hr_val =
            (case max_hr_arg of
               None \<Rightarrow> 220 - age
             | Some m \<Rightarrow> if m = 0 then 220 - age else m);
          hr_reserve = max_hr_val - resting_hr_arg;
          table =
            [(1, \<lparr>zone_min = py_round (fadd (float_of_int resting_hr_arg) (fmul (float_of_int hr_reserve) (fl (1 / 2)))),
                  zone_max = py_round (fadd (float_of_int resting_hr_arg) (fmul (float_of_int hr_reserve) (fl (3 / 5)))) - 1\<rparr>),
             (2, \<lparr>zone_min = py_round (fadd (float_of_int resting_hr_arg) (fmul (float_of_int hr_reserve) (fl (3 / 5)))),
                  zone_max = py_round (fadd (float_of_int resting_hr_arg) (fmul (float_of_int hr_reserve) (fl (7 / 10)))) - 1\<rparr>),
             (3, \<lparr>zone_min = py_round (fadd (float_of_int resting_hr_arg) (fmul (float_of_int hr_reserve) (fl (7 / 10)))),
                  zone_max = py_round (fadd (float_of_int resting_hr_arg) (fmul (float_of_int hr_reserve) (fl (4 / 5)))) - 1\<rparr>),
             (4, \<lparr>zone_min = py_round (fadd (float_of_int resting_hr_arg) (fmul (float_of_int hr_reserve) (fl (4 / 5)))),
                  zone_max = py_round (fadd (float_of_int resting_hr_arg) (fmul (float_of_int hr_reserve) (fl (9 / 10)))) - 1\<rparr>),
             (5, \<lparr>zone_min = py_round (fadd (float_of_int resting_hr_arg) (fmul (float_of_int hr_reserve) (fl (9 / 10)))),
                  zone_max = max_hr_val\<rparr>)]
      in (table, self\<lparr>zones := table, resting_hr := resting_hr_arg, max_hr := max_hr_val\<rparr>))"

subsection \<open>get\_zone\<close>

definition get_zone :: "hr_controller \<Rightarrow> int \<Rightarrow> py_error + (int \<times> hr_controller)" where
  "get_zone self hr =
     (if zones self = [] then Inr (0, self)
      else
        (case zone_lookup (zones self) 1 of
           Inl e \<Rightarrow> Inl e
         | Inr z1 \<Rightarrow>
             if hr < zone_min z1 then Inr (0, self)
             else if hr \<le> zone_max z1 then Inr (1, self)
             else
               (case zone_lookup (zones self) 2 of
                  Inl e \<Rightarrow> Inl e
                | Inr z2 \<Rightarrow>
                    if hr \<le> zone_max z2 then Inr (2, self)
                    else
                      (case zone_lookup (zones self) 3 of
                         Inl e \<Rightarrow> Inl e
                       | Inr z3 \<Rightarrow>
                           if hr \<le> zone_max z3 then Inr (3, self)
                           else
                             (case zone_lookup (zones self) 4 of
                                Inl e \<Rightarrow> Inl e
                              | Inr z4 \<Rightarrow>
                                  if hr \<le> zone_max z4 then Inr (4, self)
                                  else Inr (5, self))))))"

subsection \<open>calculate\_wattage\<close>

text \<open>
  The weight is a float (the default of the source is \<open>70\<close>); the integer \<open>3\<close> is
  converted exactly.
\<close>

definition calculate_wattage ::
  "hr_controller \<Rightarrow> int \<Rightarrow> rat \<Rightarrow> py_error + (int \<times> hr_controller)" where
  "calculate_wattage self hr weight =
     (if hr < resting_hr self then Inr (0, self)
      else
        (case py_truediv (hr - resting_hr self) (max_hr self - resting_hr self) of
           Inl e \<Rightarrow> Inl e
         | Inr hr_reserve_used \<Rightarrow>
             (let base_watts = fmul weight 3
              in Inr (py_round (fmul base_watts hr_reserve_used), self))))"

subsection \<open>calculate\_calories\<close>

text \<open>
  The duration and the weight are floats. The MET values \<open>2\<close>, \<open>3.5\<close>, \<open>5\<close>,
  \<open>7\<close>, \<open>10\<close>, \<open>12\<close> and the divisor \<open>60\<close> are floats exactly.
\<close>

definition calculate_calories ::
  "hr_controller \<Rightarrow> int \<Rightarrow> rat \<Rightarrow> rat \<Rightarrow> py_error + (int \<times> hr_controller)" where
  "calculate_calories self hr duration_minutes weight =
     (if hr < resting_hr self then Inr (0, self)
      else
        (case py_truediv hr (max_hr self) of
           Inl e \<Rightarrow> Inl e
         | Inr hr_percent \<Rightarrow>
             (let met =
                    (if hr_percent < fl (1 / 2) then 2
                     else if hr_percent < fl (3 / 5) then 7 / 2
                     else if hr_percent < fl (7 / 10) then 5
                     else if hr_percent < fl (4 / 5) then 7
                     else if hr_percent < fl (9 / 10) then 10
                     else 12)
              in Inr (py_round (fmul (fmul met weight) (fl (duration_minutes / 60))), self))))"

subsection \<open>calculate\_recovery\_time\<close>

text \<open>
  The result \<open>round(..) / 2\<close> is a true division of two integers by the constant 2; it
  cannot raise.
\<close>

definition calculate_recovery_time ::
  "hr_controller \<Rightarrow> rat \<Rightarrow> int \<Rightarrow> py_error + (rat \<times> hr_controller)" where
  "calculate_recovery_time self workout_duration_minutes avg_hr =
     (case py_truediv (avg_hr - resting_hr self) (max_hr self - resting_hr self) of
        Inl e \<Rightarrow> Inl e
      | Inr hr_intensity \<Rightarrow>
          (let recovery_factor =
                 (if hr_intensity < fl (3 / 5) then fl (1 / 5)
                  else if hr_intensity < fl (3 / 4) then fl (3 / 10)
                  else if hr_intensity < fl (17 / 20) then fl (1 / 2)
                  else fl (7 / 10));
               base_recovery_hours = fl (workout_duration_minutes / 60)
           in Inr (fl (of_int (py_round
                     (fmul (fmul base_recovery_hours (fadd 1 recovery_factor)) 2)) / 2),
                   self)))"

subsection \<open>calculate\_zone\_distribution\<close>

text \<open>
  The first loop of the method: every sample is classified by \<open>self.get_zone\<close> and
  \<open>zone_counts[zone] += 1\<close> reads the counter (KeyError when the key is missing) and
  stores it back.
\<close>

fun count_samples ::
  "hr_controller \<Rightarrow> int list \<Rightarrow> (int \<times> int) list \<Rightarrow> py_error + ((int \<times> int) list \<times> hr_controller)"
where
  "count_samples self [] zone_counts = Inr (zone_counts, self)"
| "count_samples self (hr # hr_samples) zone_counts =
     (case get_zone self hr of
        Inl e \<Rightarrow> Inl e
      | Inr (zn, self') \<Rightarrow>
          (case map_of zone_counts zn of
             None \<Rightarrow> Inl KeyError
           | Some c \<Rightarrow> count_samples self' hr_samples (AList.update zn (c + 1) zone_counts)))"

text \<open>The second loop: \<open>round((count / total_samples) * 100)\<close> for every item of \<open>zone_counts\<close>.\<close>

fun percentages :: "(int \<times> int) list \<Rightarrow> int \<Rightarrow> py_error + (int \<times> int) list" where
  "percentages [] total_samples = Inr []"
| "percentages ((zn, c) # items) total_samples =
     (case py_truediv c total_samples of
        Inl e \<Rightarrow> Inl e
      | Inr q \<Rightarrow>
          (case percentages items total_samples of
             Inl e \<Rightarrow> Inl e
           | Inr zone_percentages \<Rightarrow> Inr ((zn, py_round (fmul q 100)) # zone_percentages)))"

definition calculate_zone_distribution ::
  "hr_controller \<Rightarrow> int list \<Rightarrow> py_error + ((int \<times> int) list \<times> hr_controller)" where
  "calculate_zone_distribution self hr_samples =
     (if hr_samples = [] then Inr ([(0, 0), (1, 0), (2, 0), (3, 0), (4, 0), (5, 0)], self)
      else
        (let zone_counts = [(0, 0), (1, 0), (2, 0), (3, 0), (4, 0), (5, 0)];
             total_samples = int (length hr_samples)
         in case count_samples self hr_samples zone_counts of
              Inl e \<Rightarrow> Inl e
            | Inr (counted, self') \<Rightarrow>
                (case percentages counted total_samples of
                   Inl e \<Rightarrow> Inl e
                 | Inr zone_percentages \<Rightarrow> Inr (zone_percentages, self'))))"

subsection \<open>The states of the object\<close>

text \<open>
  A state is reachable when a sequence of method calls that return normally leads to it
  from the constructor.
\<close>

inductive reachable :: "hr_controller \<Rightarrow> bool" where
  reach_init: "reachable init"
| reach_calculate_zones:
    "reachable s \<Longrightarrow> calculate_zones s age r m = (t, s') \<Longrightarrow> reachable s'"
| reach_get_zone:
    "reachable s \<Longrightarrow> get_zone s hr = Inr (z, s') \<Longrightarrow> reachable s'"
| reach_calculate_wattage:
    "reachable s \<Longrightarrow> calculate_wattage s hr w = Inr (p, s') \<Longrightarrow> reachable s'"
| reach_calculate_calories:
    "reachable s \<Longrightarrow> calculate_calories s hr d w = Inr (c, s') \<Longrightarrow> reachable s'"
| reach_calculate_recovery_time:
    "reachable s \<Longrightarrow> calculate_recovery_time s d a = Inr (h, s') \<Longrightarrow> reachable s'"
| reach_calculate_zone_distribution:
    "reachable s \<Longrightarrow> calculate_zone_distribution s xs = Inr (ps, s') \<Longrightarrow> reachable s'"

code_pred reachable .

text \<open>
  A zone table as \<open>get_zone\<close> can read it: empty, or with an entry for each of the
  zones 1 to 5.
\<close>

definition zone_table_ok :: "(int \<times> zone) list \<Rightarrow> bool" where
  "zone_table_ok zs =
     (zs = [] \<or>
      (map_of zs 1 \<noteq> None \<and> map_of zs 2 \<noteq> None \<and> map_of zs 3 \<noteq> None \<and>
       map_of zs 4 \<noteq> None \<and> map_of zs 5 \<noteq> None))"

text \<open>
  The profile of the specification's worked scenario: age 30, resting heart rate 60,
  maximum heart rate 190, applied to a fresh object.
\<close>

definition scenario :: hr_controller where
  "scenario = snd (calculate_zones init 30 60 (Some 190))"

text \<open>
  A profile whose maximum heart rate equals its resting heart rate (reserve 0), applied to
  a fresh object.
\<close>

definition zero_reserve :: hr_controller where
  "zero_reserve = snd (calculate_zones init 30 100 (Some 100))"

section \<open>Auxiliary facts\<close>

subsection \<open>Rounding\<close>

lemma py_round_mono: "x \<le> y \<Longrightarrow> py_round x \<le> py_round y"
proof -
  assume xy: "x \<le> y"
  have fl: "\<lfloor>x\<rfloor> \<le> \<lfloor>y\<rfloor>" using xy by (rule floor_mono)
  have lo: "\<lfloor>y\<rfloor> \<le> py_round y" by (simp add: py_round_def Let_def)
  have hi: "py_round x \<le> \<lfloor>x\<rfloor> + 1" by (simp add: py_round_def Let_def)
  show ?thesis
  proof (cases "\<lfloor>x\<rfloor> < \<lfloor>y\<rfloor>")
    case True
    then show ?thesis using lo hi by linarith
  next
    case False
    then have eq: "\<lfloor>x\<rfloor> = \<lfloor>y\<rfloor>" using fl by linarith
    then show ?thesis using xy by (auto simp add: py_round_def Let_def)
  qed
qed

subsection \<open>Rounding to a float\<close>

lemma py_round_of_int: "py_round (of_int n) = n"
  by (simp add: py_round_def)

lemma py_round_uminus: "py_round (- x) = - py_round x"
proof (cases "x = of_int \<lfloor>x\<rfloor>")
  case True
  then have "py_round x = \<lfloor>x\<rfloor>" by (metis py_round_of_int)
  moreover have "- x = of_int (- \<lfloor>x\<rfloor>)" using True by simp
  then have "py_round (- x) = - \<lfloor>x\<rfloor>" by (metis py_round_of_int)
  ultimately show ?thesis by simp
next
  case False
  have lt: "of_int \<lfloor>x\<rfloor> < x"
  proof (rule order.not_eq_order_implies_strict)
    show "of_int \<lfloor>x\<rfloor> \<noteq> x" using False by metis
    show "of_int \<lfloor>x\<rfloor> \<le> x" by simp
  qed
  have ub: "x < of_int \<lfloor>x\<rfloor> + 1" using floor_correct [of x] by simp
  have fm: "\<lfloor>- x\<rfloor> = - \<lfloor>x\<rfloor> - 1"
    by (rule floor_unique) (use lt ub in simp_all)
  show ?thesis
    unfolding py_round_def Let_def fm using lt ub by (auto simp add: algebra_simps)
qed

lemma ilog2_bounds:
  assumes "0 < x"
  shows "2 powi ilog2 x \<le> x \<and> x < 2 powi (ilog2 x + 1)"
proof (cases "1 \<le> x")
  case True
  define n where "n = \<lfloor>x\<rfloor>"
  have n1: "1 \<le> n" using True by (simp add: n_def)
  then have n0: "0 < n" by simp
  have l1: "1 \<le> bitlen n" using n0 by (simp add: bitlen_alt_def)
  have e: "ilog2 x = bitlen n - 1" using True by (simp add: ilog2_def n_def)
  from bitlen_bounds [OF n0] have b1: "2 ^ nat (bitlen n - 1) \<le> n" and b2: "n < 2 ^ nat (bitlen n)"
    by simp_all
  have "(2::rat) powi (bitlen n - 1) = of_int (2 ^ nat (bitlen n - 1))"
    using l1 by (simp add: power_int_def)
  also have "\<dots> \<le> of_int n" using b1 by (simp only: of_int_le_iff)
  also have "\<dots> \<le> x" by (simp add: n_def)
  finally have lo: "2 powi ilog2 x \<le> x" by (simp add: e)
  have "x < of_int (n + 1)" using floor_correct [of x] by (simp add: n_def)
  also have "\<dots> \<le> of_int (2 ^ nat (bitlen n))" using b2 by (simp only: of_int_le_iff)
  also have "\<dots> = (2::rat) powi (bitlen n)" using l1 by (simp add: power_int_def)
  finally have hi: "x < 2 powi (ilog2 x + 1)" by (simp add: e)
  show ?thesis using lo hi by simp
next
  case False
  then have x1: "x < 1" by simp
  define y where "y = 1 / x"
  have y1: "1 < y" using assms x1 by (simp add: y_def)
  define n where "n = \<lceil>y\<rceil> - 1"
  have "1 < \<lceil>y\<rceil>" using y1 by (simp add: less_ceiling_iff)
  then have n1: "1 \<le> n" by (simp add: n_def)
  then have n0: "0 < n" by simp
  have k1: "1 \<le> bitlen n" using n0 by (simp add: bitlen_alt_def)
  have e: "ilog2 x = - bitlen n" using False by (simp add: ilog2_def n_def y_def)
  from bitlen_bounds [OF n0] have b1: "2 ^ nat (bitlen n - 1) \<le> n" and b2: "n < 2 ^ nat (bitlen n)"
    by simp_all
  have "y \<le> of_int (n + 1)" using ceiling_correct [of y] by (simp add: n_def)
  also have "\<dots> \<le> of_int (2 ^ nat (bitlen n))" using b2 by (simp only: of_int_le_iff)
  finally have yk: "y \<le> 2 ^ nat (bitlen n)" by simp
  have "inverse ((2::rat) ^ nat (bitlen n)) \<le> inverse y"
    using yk y1 by (intro le_imp_inverse_le) simp_all
  moreover have "(2::rat) powi (- bitlen n) = inverse (2 ^ nat (bitlen n))"
    using k1 by (simp add: power_int_minus power_int_def power_one_over inverse_eq_divide)
  ultimately have lo: "2 powi ilog2 x \<le> x"
    using assms by (simp add: e y_def)
  have "of_int (2 ^ nat (bitlen n - 1)) \<le> (of_int n :: rat)" using b1 by (simp only: of_int_le_iff)
  also have "\<dots> < y" using ceiling_correct [of y] by (simp add: n_def)
  finally have ky: "2 ^ nat (bitlen n - 1) < y" by simp
  have "inverse y < inverse ((2::rat) ^ nat (bitlen n - 1))"
    using ky by (intro less_imp_inverse_less) simp_all
  moreover have "(2::rat) powi (- (bitlen n - 1)) = inverse (2 ^ nat (bitlen n - 1))"
    using k1 by (simp only: power_int_minus) (simp add: power_int_def)
  moreover have "- bitlen n + 1 = - (bitlen n - 1)" by simp
  ultimately have hi: "x < 2 powi (ilog2 x + 1)"
    using assms by (simp add: e y_def)
  show ?thesis using lo hi by simp
qed


lemma ilog2_mono:
  assumes "0 < x" "x \<le> y"
  shows "ilog2 x \<le> ilog2 y"
proof (rule ccontr)
  assume "\<not> ilog2 x \<le> ilog2 y"
  then have "ilog2 y + 1 \<le> ilog2 x" by simp
  then have "(2::rat) powi (ilog2 y + 1) \<le> 2 powi ilog2 x"
    by (intro power_int_increasing) simp_all
  moreover have "2 powi ilog2 x \<le> x" using ilog2_bounds [OF assms(1)] by simp
  moreover have "y < 2 powi (ilog2 y + 1)" using ilog2_bounds [of y] assms by simp
  ultimately show False using assms(2) by linarith
qed

lemma fl_pos_eq:
  assumes "0 < x"
  shows "fl x = of_int (py_round (x / 2 powi (ilog2 x - 52))) * 2 powi (ilog2 x - 52)"
  using assms by (simp add: fl_def Let_def)

lemma pow_split53: "(2::rat) powi (e + 1) = of_int (2 ^ 53) * 2 powi (e - 52)"
proof -
  have "(2::rat) powi (53 + (e - 52)) = 2 powi 53 * 2 powi (e - 52)"
    by (rule power_int_add) simp
  moreover have "(2::rat) powi 53 = of_int (2 ^ 53)" by (simp add: power_int_def)
  moreover have "53 + (e - 52) = e + 1" by simp
  ultimately show ?thesis by metis
qed

lemma pow_split52: "(2::rat) powi e = of_int (2 ^ 52) * 2 powi (e - 52)"
proof -
  have "(2::rat) powi (52 + (e - 52)) = 2 powi 52 * 2 powi (e - 52)"
    by (rule power_int_add) simp
  moreover have "(2::rat) powi 52 = of_int (2 ^ 52)" by (simp add: power_int_def)
  moreover have "52 + (e - 52) = e" by simp
  ultimately show ?thesis by metis
qed

lemma fl_upper:
  assumes "0 < x"
  shows "fl x \<le> 2 powi (ilog2 x + 1)"
proof -
  define q where "q = ilog2 x - 52"
  have qpos: "(0::rat) < 2 powi q" by (simp add: zero_less_power_int)
  have sp: "(2::rat) powi (ilog2 x + 1) = of_int (2 ^ 53) * 2 powi q"
    unfolding q_def by (rule pow_split53)
  have "x < 2 powi (ilog2 x + 1)" using ilog2_bounds [OF assms] by simp
  then have "x < of_int (2 ^ 53) * 2 powi q" by (simp only: sp)
  then have "x / 2 powi q \<le> of_int (2 ^ 53)"
    using qpos by (simp add: pos_divide_le_eq)
  then have "py_round (x / 2 powi q) \<le> 2 ^ 53"
    using py_round_mono py_round_of_int by metis
  then have "(of_int (py_round (x / 2 powi q)) :: rat) \<le> of_int (2 ^ 53)"
    by (simp only: of_int_le_iff)
  then have "of_int (py_round (x / 2 powi q)) * 2 powi q \<le> of_int (2 ^ 53) * (2::rat) powi q"
    using qpos by (intro mult_right_mono) simp_all
  then have "of_int (py_round (x / 2 powi q)) * 2 powi q \<le> (2::rat) powi (ilog2 x + 1)"
    by (simp only: sp)
  then show ?thesis by (simp only: fl_pos_eq [OF assms] q_def)
qed

lemma fl_lower:
  assumes "0 < x"
  shows "2 powi ilog2 x \<le> fl x"
proof -
  define q where "q = ilog2 x - 52"
  have qpos: "(0::rat) < 2 powi q" by (simp add: zero_less_power_int)
  have sp: "(2::rat) powi ilog2 x = of_int (2 ^ 52) * 2 powi q"
    unfolding q_def by (rule pow_split52)
  have "2 powi ilog2 x \<le> x" using ilog2_bounds [OF assms] by simp
  then have "of_int (2 ^ 52) * 2 powi q \<le> x" by (simp only: sp)
  then have "of_int (2 ^ 52) \<le> x / 2 powi q"
    using qpos by (simp only: pos_le_divide_eq)
  then have "2 ^ 52 \<le> py_round (x / 2 powi q)"
    using py_round_mono py_round_of_int by metis
  then have "(of_int (2 ^ 52) :: rat) \<le> of_int (py_round (x / 2 powi q))"
    by (simp only: of_int_le_iff)
  then have "of_int (2 ^ 52) * (2::rat) powi q \<le> of_int (py_round (x / 2 powi q)) * 2 powi q"
    using qpos by (intro mult_right_mono) simp_all
  then have "(2::rat) powi ilog2 x \<le> of_int (py_round (x / 2 powi q)) * 2 powi q"
    by (simp only: sp)
  then show ?thesis by (simp only: fl_pos_eq [OF assms] q_def)
qed

lemma fl_pos_mono:
  assumes "0 < x" "x \<le> y"
  shows "fl x \<le> fl y"
proof -
  have ypos: "0 < y" using assms by simp
  have le: "ilog2 x \<le> ilog2 y" using assms by (rule ilog2_mono)
  show ?thesis
  proof (cases "ilog2 x = ilog2 y")
    case True
    define q where "q = ilog2 x - 52"
    have qpos: "(0::rat) < 2 powi q" by (simp add: zero_less_power_int)
    have "x / 2 powi q \<le> y / 2 powi q" using assms(2) qpos by (simp add: divide_right_mono)
    then have "py_round (x / 2 powi q) \<le> py_round (y / 2 powi q)" by (rule py_round_mono)
    then have "(of_int (py_round (x / 2 powi q)) :: rat) \<le> of_int (py_round (y / 2 powi q))"
      by (simp only: of_int_le_iff)
    then have "of_int (py_round (x / 2 powi q)) * 2 powi q \<le>
        (of_int (py_round (y / 2 powi q)) :: rat) * 2 powi q"
      using qpos by (intro mult_right_mono) simp_all
    then show ?thesis
      using True by (simp add: fl_pos_eq [OF assms(1)] fl_pos_eq [OF ypos] q_def)
  next
    case False
    then have "ilog2 x + 1 \<le> ilog2 y" using le by simp
    then have "(2::rat) powi (ilog2 x + 1) \<le> 2 powi ilog2 y"
      by (intro power_int_increasing) simp_all
    then show ?thesis using fl_upper [OF assms(1)] fl_lower [OF ypos] by linarith
  qed
qed

lemma fl_zero: "fl 0 = 0"
  by (simp add: fl_def)

lemma fl_uminus: "fl (- x) = - fl x"
  by (simp add: fl_def Let_def py_round_uminus)

lemma fl_pos: "0 < x \<Longrightarrow> 0 < fl x"
proof -
  assume "0 < x"
  then have "2 powi ilog2 x \<le> fl x" by (rule fl_lower)
  moreover have "(0::rat) < 2 powi ilog2 x" by (simp add: zero_less_power_int)
  ultimately show ?thesis by linarith
qed

lemma fl_mono:
  assumes "x \<le> y"
  shows "fl x \<le> fl y"
proof -
  consider "0 < x" | "x \<le> 0" "0 \<le> y" | "y < 0" by linarith
  then show ?thesis
  proof cases
    case 1
    then show ?thesis using assms by (rule fl_pos_mono)
  next
    case 2
    have "fl x \<le> 0"
    proof (cases "x = 0")
      case True
      then show ?thesis by (simp add: fl_zero)
    next
      case False
      then have "0 < - x" using 2 by simp
      then have "0 < fl (- x)" by (rule fl_pos)
      then show ?thesis by (simp add: fl_uminus)
    qed
    moreover have "0 \<le> fl y"
    proof (cases "y = 0")
      case True
      then show ?thesis by (simp add: fl_zero)
    next
      case False
      then have "0 < y" using 2 by simp
      then have "0 < fl y" by (rule fl_pos)
      then show ?thesis by simp
    qed
    ultimately show ?thesis by linarith
  next
    case 3
    then have "0 < - y" "- y \<le> - x" using assms by simp_all
    then have "fl (- y) \<le> fl (- x)" by (rule fl_pos_mono)
    then show ?thesis by (simp add: fl_uminus)
  qed
qed

lemma float_of_int_nonneg: "0 \<le> h \<Longrightarrow> 0 \<le> float_of_int h"
  unfolding float_of_int_def using fl_mono [of 0 "of_int h"] by (simp add: fl_zero)

lemma float_of_int_nonpos: "h \<le> 0 \<Longrightarrow> float_of_int h \<le> 0"
  unfolding float_of_int_def using fl_mono [of "of_int h" 0] by (simp add: fl_zero)

text \<open>Integers below \<open>2 ^ 53\<close> in magnitude are floats exactly.\<close>

lemma fl_of_int_pos_exact:
  assumes "0 < n" "n < 2 ^ 53"
  shows "fl (of_int n) = of_int n"
proof -
  define x :: rat where "x = of_int n"
  have xpos: "0 < x" using assms(1) by (simp add: x_def)
  define e where "e = ilog2 x"
  have "2 powi e \<le> x" using ilog2_bounds [OF xpos] by (simp add: e_def)
  also have "x < of_int (2 ^ 53)" unfolding x_def using assms(2) by (simp only: of_int_less_iff)
  also have "of_int (2 ^ 53) = (2::rat) powi 53" by (simp add: power_int_def)
  finally have "(2::rat) powi e < 2 powi 53" .
  then have e52: "e \<le> 52"
    by (rule_tac ccontr) (use power_int_increasing [of 53 e "2::rat"] in force)
  define k where "k = nat (52 - e)"
  have q: "(2::rat) powi (e - 52) = inverse (2 ^ k)"
  proof -
    have "e - 52 = - int k" using e52 by (simp add: k_def)
    then show ?thesis by (simp add: power_int_minus)
  qed
  have "x / 2 powi (e - 52) = of_int (n * 2 ^ k)"
    by (simp add: q x_def divide_inverse)
  then have "py_round (x / 2 powi (e - 52)) = n * 2 ^ k"
    by (simp only: py_round_of_int)
  then have "fl x = of_int (n * 2 ^ k) * inverse (2 ^ k)"
    using xpos by (simp only: fl_pos_eq [OF xpos] e_def [symmetric] q)
  then show ?thesis by (simp add: x_def)
qed

lemma fl_of_int_exact:
  assumes "\<bar>n\<bar> < 2 ^ 53"
  shows "fl (of_int n) = of_int n"
proof -
  consider "n = 0" | "0 < n" | "n < 0" by linarith
  then show ?thesis
  proof cases
    case 1
    then show ?thesis by (simp add: fl_zero)
  next
    case 2
    then show ?thesis using assms by (intro fl_of_int_pos_exact) simp_all
  next
    case 3
    then have "fl (of_int (- n)) = of_int (- n)" using assms by (intro fl_of_int_pos_exact) simp_all
    then have "fl (- of_int n) = - of_int n" by simp
    then show ?thesis by (simp only: fl_uminus)
  qed
qed

lemma fl_numeral: "numeral k < (2::int) ^ 53 \<Longrightarrow> fl (numeral k) = numeral k"
  using fl_of_int_exact [of "numeral k"] by simp

lemma fl_neg_numeral: "numeral k < (2::int) ^ 53 \<Longrightarrow> fl (- numeral k) = - numeral k"
  using fl_of_int_exact [of "- numeral k"] by simp

lemma fl_one: "fl 1 = 1"
  using fl_of_int_exact [of 1] by simp

lemma py_round_numeral: "py_round (numeral k) = numeral k"
  using py_round_of_int [of "numeral k"] by simp

lemma py_round_neg_numeral: "py_round (- numeral k) = - numeral k"
  using py_round_of_int [of "- numeral k"] by simp

lemma py_round_zero: "py_round 0 = 0"
  using py_round_of_int [of 0] by simp

subsection \<open>No method but calculate\_zones assigns to the object\<close>

lemma get_zone_frame: "get_zone s hr = Inr (z, s') \<Longrightarrow> s' = s"
  by (auto simp add: get_zone_def split: if_splits sum.splits)

lemma calculate_wattage_frame: "calculate_wattage s hr w = Inr (p, s') \<Longrightarrow> s' = s"
  by (auto simp add: calculate_wattage_def Let_def split: if_splits sum.splits)

lemma calculate_calories_frame: "calculate_calories s hr d w = Inr (c, s') \<Longrightarrow> s' = s"
  by (auto simp add: calculate_calories_def Let_def split: if_splits sum.splits)

lemma calculate_recovery_time_frame: "calculate_recovery_time s d a = Inr (h, s') \<Longrightarrow> s' = s"
  by (auto simp add: calculate_recovery_time_def Let_def split: if_splits sum.splits)

lemma count_samples_frame: "count_samples s xs zc = Inr (zc', s') \<Longrightarrow> s' = s"
proof (induction xs arbitrary: s zc)
  case Nil
  then show ?case by simp
next
  case (Cons x xs)
  then show ?case
    by (auto split: sum.splits option.splits dest: get_zone_frame)
qed

lemma calculate_zone_distribution_frame:
  "calculate_zone_distribution s xs = Inr (ps, s') \<Longrightarrow> s' = s"
  by (auto simp add: calculate_zone_distribution_def Let_def
      split: if_splits sum.splits dest: count_samples_frame)

subsection \<open>The zone table of a reachable state\<close>

lemma reachable_zones:
  "reachable s \<Longrightarrow> zones s = [] \<or> (\<exists>s0 age r m. zones s = fst (calculate_zones s0 age r m))"
proof (induction rule: reachable.induct)
  case reach_init
  then show ?case by (simp add: init_def)
next
  case (reach_calculate_zones s age r m t s')
  have "zones s' = fst (calculate_zones s age r m)"
    using reach_calculate_zones.hyps(2) by (auto simp add: calculate_zones_def Let_def)
  then show ?case by blast
next
  case (reach_get_zone s hr z s')
  then show ?case using get_zone_frame by blast
next
  case (reach_calculate_wattage s hr w p s')
  then show ?case using calculate_wattage_frame by blast
next
  case (reach_calculate_calories s hr d w c s')
  then show ?case using calculate_calories_frame by blast
next
  case (reach_calculate_recovery_time s d a h s')
  then show ?case using calculate_recovery_time_frame by blast
next
  case (reach_calculate_zone_distribution s xs ps s')
  then show ?case using calculate_zone_distribution_frame by blast
qed

lemma calculate_zones_table_ok: "zone_table_ok (fst (calculate_zones s age r m))"
  by (simp add: zone_table_ok_def calculate_zones_def Let_def)

lemma reachable_table_ok:
  assumes "reachable s"
  shows "zone_table_ok (zones s)"
proof -
  from reachable_zones [OF assms] show ?thesis
  proof
    assume "zones s = []"
    then show ?thesis by (simp add: zone_table_ok_def)
  next
    assume "\<exists>s0 age r m. zones s = fst (calculate_zones s0 age r m)"
    then obtain s0 age r m where "zones s = fst (calculate_zones s0 age r m)" by blast
    then show ?thesis using calculate_zones_table_ok [of s0 age r m] by simp
  qed
qed

lemma reachable_scenario: "reachable scenario"
  unfolding scenario_def
  by (rule reach_calculate_zones [OF reach_init]) (rule prod.collapse [symmetric])

subsection \<open>The comparison chain of get\_zone\<close>

lemma get_zone_empty: "zones s = [] \<Longrightarrow> get_zone s hr = Inr (0, s)"
  by (simp add: get_zone_def)

lemma get_zone_full:
  assumes "map_of (zones s) 1 = Some z1" "map_of (zones s) 2 = Some z2"
    "map_of (zones s) 3 = Some z3" "map_of (zones s) 4 = Some z4"
  shows "get_zone s hr =
     Inr (if hr < zone_min z1 then 0
          else if hr \<le> zone_max z1 then 1
          else if hr \<le> zone_max z2 then 2
          else if hr \<le> zone_max z3 then 3
          else if hr \<le> zone_max z4 then 4 else 5, s)"
proof -
  have "zones s \<noteq> []" using assms(1) by auto
  then show ?thesis using assms by (simp add: get_zone_def zone_lookup_def)
qed

lemma bound_mono_pos:
  assumes "0 \<le> h" "f \<le> g"
  shows "py_round (fadd (float_of_int r) (fmul (float_of_int h) (fl f))) \<le>
     py_round (fadd (float_of_int r) (fmul (float_of_int h) (fl g)))"
proof -
  have "float_of_int h * fl f \<le> float_of_int h * fl g"
    using fl_mono [OF assms(2)] float_of_int_nonneg [OF assms(1)] by (rule mult_left_mono)
  then have "fmul (float_of_int h) (fl f) \<le> fmul (float_of_int h) (fl g)"
    unfolding fmul_def by (rule fl_mono)
  then have "fadd (float_of_int r) (fmul (float_of_int h) (fl f)) \<le>
      fadd (float_of_int r) (fmul (float_of_int h) (fl g))"
    unfolding fadd_def by (intro fl_mono) simp
  then show ?thesis by (rule py_round_mono)
qed

lemma bound_mono_neg:
  assumes "h \<le> 0" "f \<le> g"
  shows "py_round (fadd (float_of_int r) (fmul (float_of_int h) (fl g))) \<le>
     py_round (fadd (float_of_int r) (fmul (float_of_int h) (fl f)))"
proof -
  have "float_of_int h * fl g \<le> float_of_int h * fl f"
    using fl_mono [OF assms(2)] float_of_int_nonpos [OF assms(1)] by (rule mult_left_mono_neg)
  then have "fmul (float_of_int h) (fl g) \<le> fmul (float_of_int h) (fl f)"
    unfolding fmul_def by (rule fl_mono)
  then have "fadd (float_of_int r) (fmul (float_of_int h) (fl g)) \<le>
      fadd (float_of_int r) (fmul (float_of_int h) (fl f))"
    unfolding fadd_def by (intro fl_mono) simp
  then show ?thesis by (rule py_round_mono)
qed

lemma calculate_zones_chain:
  assumes t: "fst (calculate_zones s0 age r m) = zs"
  shows "\<exists>z1 z2 z3 z4 z5.
     zs = [(1, z1), (2, z2), (3, z3), (4, z4), (5, z5)] \<and>
     (\<forall>hr. zone_min z1 \<le> hr \<and> zone_max z4 < hr \<longrightarrow>
        zone_max z1 < hr \<and> zone_max z2 < hr \<and> zone_max z3 < hr)"
proof -
  define mx where "mx = (case m of None \<Rightarrow> 220 - age | Some v \<Rightarrow> if v = 0 then 220 - age else v)"
  define h where "h = mx - r"
  define b where
    "b = (\<lambda>frac :: rat. py_round (fadd (float_of_int r) (fmul (float_of_int h) (fl frac))))"
  have zs: "zs = [(1, \<lparr>zone_min = b (1 / 2), zone_max = b (3 / 5) - 1\<rparr>),
             (2, \<lparr>zone_min = b (3 / 5), zone_max = b (7 / 10) - 1\<rparr>),
             (3, \<lparr>zone_min = b (7 / 10), zone_max = b (4 / 5) - 1\<rparr>),
             (4, \<lparr>zone_min = b (4 / 5), zone_max = b (9 / 10) - 1\<rparr>),
             (5, \<lparr>zone_min = b (9 / 10), zone_max = mx\<rparr>)]"
    using t by (simp add: calculate_zones_def Let_def b_def h_def mx_def)
  have ord: "b (1 / 2) \<le> hr \<and> b (9 / 10) - 1 < hr \<longrightarrow>
        b (3 / 5) - 1 < hr \<and> b (7 / 10) - 1 < hr \<and> b (4 / 5) - 1 < hr" for hr
  proof (cases "0 \<le> h")
    case True
    have "b (3 / 5) \<le> b (9 / 10)" "b (7 / 10) \<le> b (9 / 10)" "b (4 / 5) \<le> b (9 / 10)"
      unfolding b_def by (rule bound_mono_pos [OF True], simp)+
    then show ?thesis by linarith
  next
    case False
    then have neg: "h \<le> 0" by simp
    have "b (3 / 5) \<le> b (1 / 2)" "b (7 / 10) \<le> b (1 / 2)" "b (4 / 5) \<le> b (1 / 2)"
      unfolding b_def by (rule bound_mono_neg [OF neg], simp)+
    then show ?thesis by linarith
  qed
  show ?thesis unfolding zs using ord by simp
qed

lemma get_zone_total:
  assumes "zone_table_ok (zones s)"
  shows "\<exists>z. get_zone s hr = Inr (z, s) \<and> z \<in> {0, 1, 2, 3, 4, 5}"
proof (cases "zones s = []")
  case True
  then show ?thesis by (simp add: get_zone_empty)
next
  case False
  then obtain a b c d where
    "map_of (zones s) 1 = Some a" "map_of (zones s) 2 = Some b"
    "map_of (zones s) 3 = Some c" "map_of (zones s) 4 = Some d"
    using assms by (auto simp add: zone_table_ok_def)
  then show ?thesis by (simp add: get_zone_full)
qed

lemma lookup_counts:
  "z \<in> {0, 1, 2, 3, 4, 5} \<Longrightarrow>
   map_of (map (\<lambda>k. (k, c k)) [0, 1, 2, 3, 4, 5 :: int]) z = Some (c z)"
  by auto

lemma update_counts:
  "z \<in> {0, 1, 2, 3, 4, 5} \<Longrightarrow>
   AList.update z v (map (\<lambda>k. (k, c k)) [0, 1, 2, 3, 4, 5 :: int]) =
   map (\<lambda>k. (k, (c(z := v)) k)) [0, 1, 2, 3, 4, 5]"
  by auto

lemma count_samples_counts:
  assumes "zone_table_ok (zones s)"
  shows "count_samples s xs (map (\<lambda>k. (k, c k)) [0, 1, 2, 3, 4, 5]) =
     Inr (map (\<lambda>k. (k, c k + int (length (filter (\<lambda>hr. get_zone s hr = Inr (k, s)) xs))))
            [0, 1, 2, 3, 4, 5], s)"
proof (induction xs arbitrary: c)
  case Nil
  show ?case by simp
next
  case (Cons x xs)
  obtain z where gz: "get_zone s x = Inr (z, s)" and zr: "z \<in> {0, 1, 2, 3, 4, 5}"
    using get_zone_total [OF assms] by blast
  have "count_samples s (x # xs) (map (\<lambda>k. (k, c k)) [0, 1, 2, 3, 4, 5]) =
      count_samples s xs (map (\<lambda>k. (k, (c(z := c z + 1)) k)) [0, 1, 2, 3, 4, 5])"
    using gz by (simp only: count_samples.simps sum.case prod.case
        lookup_counts [OF zr] update_counts [OF zr] option.case)
  also have "\<dots> =
      Inr (map (\<lambda>k. (k, (c(z := c z + 1)) k +
              int (length (filter (\<lambda>hr. get_zone s hr = Inr (k, s)) xs))))
            [0, 1, 2, 3, 4, 5], s)"
    by (rule Cons.IH)
  also have "\<dots> =
      Inr (map (\<lambda>k. (k, c k + int (length (filter (\<lambda>hr. get_zone s hr = Inr (k, s)) (x # xs)))))
            [0, 1, 2, 3, 4, 5], s)"
    using gz by simp
  finally show ?case .
qed

lemma percentages_counts:
  assumes "n \<noteq> 0"
  shows "percentages (map (\<lambda>k. (k, c k)) [0, 1, 2, 3, 4, 5]) n =
     Inr (map (\<lambda>k. (k, py_round (fmul (fl (of_int (c k) / of_int n)) 100))) [0, 1, 2, 3, 4, 5])"
  using assms by (simp add: py_truediv_def)

subsection \<open>The float literals of the source\<close>

lemma lit_1_2: "fl (1 / 2) = 1 / 2"
  by code_simp

lemma lit_3_5: "fl (3 / 5) = 5404319552844595 / 9007199254740992"
  by code_simp




subsection \<open>The example profiles\<close>

lemma calculate_zones_snd:
  "snd (calculate_zones s age r m) =
     s\<lparr>zones := fst (calculate_zones s age r m), resting_hr := r,
       max_hr := (case m of None \<Rightarrow> 220 - age | Some v \<Rightarrow> if v = 0 then 220 - age else v)\<rparr>"
  by (simp add: calculate_zones_def Let_def)

lemma reserve_130:
  "fmul 130 (fl (1 / 2)) = 65" "fmul 130 (fl (3 / 5)) = 78" "fmul 130 (fl (7 / 10)) = 91"
  "fmul 130 (fl (4 / 5)) = 104" "fmul 130 (fl (9 / 10)) = 117"
  by code_simp+

lemma table_60_190:
  assumes "m = None \<and> age = 30 \<or> m = Some 0 \<and> age = 30 \<or> m = Some 190"
  shows "fst (calculate_zones s age 60 m) =
      [(1, \<lparr>zone_min = 125, zone_max = 137\<rparr>), (2, \<lparr>zone_min = 138, zone_max = 150\<rparr>),
       (3, \<lparr>zone_min = 151, zone_max = 163\<rparr>), (4, \<lparr>zone_min = 164, zone_max = 176\<rparr>),
       (5, \<lparr>zone_min = 177, zone_max = 190\<rparr>)]"
  using assms
  by (auto simp add: calculate_zones_def Let_def float_of_int_def fadd_def fl_numeral
      py_round_numeral reserve_130)

lemma scenario_eq:
  "scenario =
     \<lparr>zones =
        [(1, \<lparr>zone_min = 125, zone_max = 137\<rparr>), (2, \<lparr>zone_min = 138, zone_max = 150\<rparr>),
         (3, \<lparr>zone_min = 151, zone_max = 163\<rparr>), (4, \<lparr>zone_min = 164, zone_max = 176\<rparr>),
         (5, \<lparr>zone_min = 177, zone_max = 190\<rparr>)],
      current_zone = 0, resting_hr = 60, max_hr = 190, weight_kg = 70\<rparr>"
  by (simp add: scenario_def calculate_zones_snd table_60_190 init_def)

lemma zero_reserve_eq:
  "zero_reserve =
     \<lparr>zones =
        [(1, \<lparr>zone_min = 100, zone_max = 99\<rparr>), (2, \<lparr>zone_min = 100, zone_max = 99\<rparr>),
         (3, \<lparr>zone_min = 100, zone_max = 99\<rparr>), (4, \<lparr>zone_min = 100, zone_max = 99\<rparr>),
         (5, \<lparr>zone_min = 100, zone_max = 100\<rparr>)],
      current_zone = 0, resting_hr = 100, max_hr = 100, weight_kg = 70\<rparr>"
  by (simp add: zero_reserve_def calculate_zones_def Let_def init_def float_of_int_def fmul_def
      fadd_def fl_zero fl_numeral py_round_numeral)

lemma reachable_zero_reserve: "reachable zero_reserve"
  unfolding zero_reserve_def
  by (rule reach_calculate_zones [OF reach_init]) (rule prod.collapse [symmetric])

lemma scenario_get_zone:
  "get_zone scenario 100 = Inr (0, scenario)" "get_zone scenario 130 = Inr (1, scenario)"
  "get_zone scenario 140 = Inr (2, scenario)" "get_zone scenario 170 = Inr (4, scenario)"
  by (simp_all add: get_zone_def zone_lookup_def scenario_eq)

lemma scenario_table_ok: "zone_table_ok (zones scenario)"
  by (simp add: zone_table_ok_def scenario_eq)

lemma scenario_recovery: "calculate_recovery_time scenario 60 190 = Inr (3 / 2, scenario)"
  unfolding scenario_eq by code_simp

lemma third_percent: "py_round (fmul (fl (1 / 3)) 100) = 33"
  by code_simp

text \<open>
  The rounding of a float quotient is observable. With the resting heart rate 30 and the
  maximum 42, the exact value of \<open>210 * (37 - 30) / (42 - 30)\<close> is 122.5; the float
  nearest to \<open>7 / 12\<close> is above it, so is the float product, and the method returns
  123.
\<close>

lemma wattage_tie:
  "calculate_wattage (init\<lparr>resting_hr := 30, max_hr := 42\<rparr>) 37 70 =
     Inr (123, init\<lparr>resting_hr := 30, max_hr := 42\<rparr>)"
  by code_simp

text \<open>The percentages of a non-empty list of samples.\<close>

lemma zone_distribution_nonempty:
  assumes ok: "zone_table_ok (zones s)" and ne: "xs \<noteq> []"
  shows "calculate_zone_distribution s xs =
        Inr (map (\<lambda>z. (z, py_round
                    (fmul (fl (of_int (int (length (filter (\<lambda>hr. get_zone s hr = Inr (z, s)) xs))) /
                               of_int (int (length xs)))) 100)))
               [0, 1, 2, 3, 4, 5], s)"
proof -
  have n: "int (length xs) \<noteq> 0" using ne by simp
  have cnt: "count_samples s xs [(0, 0), (1, 0), (2, 0), (3, 0), (4, 0), (5, 0)] =
      Inr (map (\<lambda>k. (k, int (length (filter (\<lambda>hr. get_zone s hr = Inr (k, s)) xs))))
             [0, 1, 2, 3, 4, 5], s)"
    using count_samples_counts [OF ok, of xs "\<lambda>k. 0"] by simp
  show ?thesis
    unfolding calculate_zone_distribution_def Let_def cnt
    using ne by (simp only: if_False sum.case prod.case percentages_counts [OF n])
qed

lemma scenario_distribution:
  "calculate_zone_distribution scenario [100, 130, 140] =
     Inr ([(0, 33), (1, 33), (2, 33), (3, 0), (4, 0), (5, 0)], scenario)"
proof -
  have z: "py_round (fmul (fl 0) 100) = 0"
    by (simp add: fmul_def fl_zero py_round_zero)
  show ?thesis
    using zone_distribution_nonempty [OF scenario_table_ok, of "[100, 130, 140]"]
    by (simp add: scenario_get_zone third_percent z)
qed

section \<open>The claims\<close>

text \<open>
  C1. For every age, resting heart rate and maximum heart rate (in particular whenever the
  maximum exceeds the resting heart rate) the table that \<open>calculate_zones\<close> returns has
  the five zones 1 to 5, and their bounds are contiguous and do not overlap: the upper
  bound of zone \<open>i\<close> plus one is the lower bound of zone \<open>i + 1\<close>, for \<open>i\<close> from 1 to 4.
\<close>

theorem calculate_zones_contiguous:
  "\<exists>z1 z2 z3 z4 z5.
     fst (calculate_zones s age r m) = [(1, z1), (2, z2), (3, z3), (4, z4), (5, z5)] \<and>
     zone_max z1 + 1 = zone_min z2 \<and>
     zone_max z2 + 1 = zone_min z3 \<and>
     zone_max z3 + 1 = zone_min z4 \<and>
     zone_max z4 + 1 = zone_min z5"
  by (simp add: calculate_zones_def Let_def)

text \<open>
  C2. As stated (for every maximum heart rate passed) the claim fails when the argument is
  0: \<open>if not max_hr\<close> takes it as absent, and zone 5 ends at \<open>220 - age\<close>, zone 1
  starts at the bound for that estimate.
\<close>

theorem calculate_zones_zero_max_counterexample:
  "map_of (fst (calculate_zones init 30 60 (Some 0))) 5 = Some \<lparr>zone_min = 177, zone_max = 190\<rparr> \<and>
   map_of (fst (calculate_zones init 30 60 (Some 0))) 1 = Some \<lparr>zone_min = 125, zone_max = 137\<rparr> \<and>
   py_round (fadd (float_of_int 60) (fmul (fl (1 / 2)) (float_of_int (0 - 60)))) = 30"
  by (simp add: table_60_190 float_of_int_def fmul_def fadd_def lit_1_2 fl_numeral
      fl_neg_numeral py_round_numeral)

text \<open>
  C2, amended. For every age and resting heart rate: when the maximum heart rate passed
  is a number other than 0, the upper bound of zone 5 is exactly that number and the
  lower bound of zone 1 is \<open>round(restingHR + 0.5 * (maxHR - restingHR))\<close>; when it is
  absent or 0, both hold with \<open>220 - age\<close> in its place. For age 30, resting heart rate 60
  and maximum heart rate 190, zone 1 is 125 to 137 and zone 5 is 177 to 190.
\<close>

theorem calculate_zones_bounds:
  "\<exists>z1 z2 z3 z4 z5.
     fst (calculate_zones s age r m) = [(1, z1), (2, z2), (3, z3), (4, z4), (5, z5)] \<and>
     (\<forall>v. m = Some v \<and> v \<noteq> 0 \<longrightarrow>
        zone_max z5 = v \<and>
        zone_min z1 = py_round (fadd (float_of_int r) (fmul (fl (1 / 2)) (float_of_int (v - r))))) \<and>
     (m = None \<or> m = Some 0 \<longrightarrow>
        zone_max z5 = 220 - age \<and>
        zone_min z1 =
          py_round (fadd (float_of_int r) (fmul (fl (1 / 2)) (float_of_int (220 - age - r))))) \<and>
     map_of (fst (calculate_zones s 30 60 (Some 190))) 1 = Some \<lparr>zone_min = 125, zone_max = 137\<rparr> \<and>
     map_of (fst (calculate_zones s 30 60 (Some 190))) 5 = Some \<lparr>zone_min = 177, zone_max = 190\<rparr>"
proof -
  have conc:
    "map_of (fst (calculate_zones s 30 60 (Some 190))) 1 = Some \<lparr>zone_min = 125, zone_max = 137\<rparr>"
    "map_of (fst (calculate_zones s 30 60 (Some 190))) 5 = Some \<lparr>zone_min = 177, zone_max = 190\<rparr>"
    by (simp_all add: table_60_190)
  have gen: "\<exists>z1 z2 z3 z4 z5.
     fst (calculate_zones s age r m) = [(1, z1), (2, z2), (3, z3), (4, z4), (5, z5)] \<and>
     (\<forall>v. m = Some v \<and> v \<noteq> 0 \<longrightarrow>
        zone_max z5 = v \<and>
        zone_min z1 = py_round (fadd (float_of_int r) (fmul (fl (1 / 2)) (float_of_int (v - r))))) \<and>
     (m = None \<or> m = Some 0 \<longrightarrow>
        zone_max z5 = 220 - age \<and>
        zone_min z1 =
          py_round (fadd (float_of_int r) (fmul (fl (1 / 2)) (float_of_int (220 - age - r)))))"
    by (auto simp add: calculate_zones_def Let_def fmul_def mult.commute)
  show ?thesis using gen conc by blast
qed

theorem calculate_zones_bounds_witness:
  "(\<exists>v. Some (190::int) = Some v \<and> v \<noteq> 0) \<and>
   map_of (fst (calculate_zones init 30 60 (Some 190))) 5 = Some \<lparr>zone_min = 177, zone_max = 190\<rparr> \<and>
   ((None :: int option) = None \<or> (None :: int option) = Some 0) \<and>
   map_of (fst (calculate_zones init 30 60 None)) 5 = Some \<lparr>zone_min = 177, zone_max = 190\<rparr>"
proof -
  have a: "map_of (fst (calculate_zones init 30 60 (Some 190))) 5 = Some \<lparr>zone_min = 177, zone_max = 190\<rparr>"
    using calculate_zones_bounds [of init 30 60 "Some 190"] by blast
  have t: "fst (calculate_zones init 30 60 None) =
      [(1, \<lparr>zone_min = 125, zone_max = 137\<rparr>), (2, \<lparr>zone_min = 138, zone_max = 150\<rparr>),
       (3, \<lparr>zone_min = 151, zone_max = 163\<rparr>), (4, \<lparr>zone_min = 164, zone_max = 176\<rparr>),
       (5, \<lparr>zone_min = 177, zone_max = 190\<rparr>)]"
    by (simp add: table_60_190)
  from calculate_zones_bounds [of init 30 60 None] obtain z1 z2 z3 z4 z5 where
    e: "fst (calculate_zones init 30 60 None) = [(1, z1), (2, z2), (3, z3), (4, z4), (5, z5)]"
    and m: "zone_max z5 = 220 - 30"
    by blast
  have b: "map_of (fst (calculate_zones init 30 60 None)) 5 = Some \<lparr>zone_min = 177, zone_max = 190\<rparr>"
    using e m by (simp add: t)
  show ?thesis using a b by simp
qed

text \<open>
  C3. In every reachable state of the object (the uncalculated one, and a table calculated
  from any profile, degenerate or not) \<open>get_zone\<close> returns, for every heart rate, a
  zone number from 0 to 5. It is 0 when the table is empty or the heart rate is below the
  lower bound of zone 1. Otherwise it is the smallest zone number whose upper bound the
  heart rate does not exceed: every zone below the result is exceeded, and unless the
  result is 5 the heart rate is within the upper bound of the result; it is 5 for every
  heart rate above the upper bound of zone 4, the upper bound of zone 5 not being checked.
\<close>

theorem get_zone_classifies:
  assumes "reachable s"
  shows "\<exists>z. get_zone s hr = Inr (z, s) \<and> 0 \<le> z \<and> z \<le> 5 \<and>
     (zones s = [] \<longrightarrow> z = 0) \<and>
     (zones s \<noteq> [] \<longrightarrow>
        (\<exists>z1 z2 z3 z4 z5.
           zones s = [(1, z1), (2, z2), (3, z3), (4, z4), (5, z5)] \<and>
           (hr < zone_min z1 \<longrightarrow> z = 0) \<and>
           (zone_min z1 \<le> hr \<longrightarrow>
              1 \<le> z \<and>
              (\<forall>i zi. 1 \<le> i \<and> i < z \<and> map_of (zones s) i = Some zi \<longrightarrow> zone_max zi < hr) \<and>
              (z < 5 \<longrightarrow> (\<exists>zz. map_of (zones s) z = Some zz \<and> hr \<le> zone_max zz)) \<and>
              (zone_max z4 < hr \<longrightarrow> z = 5))))"
proof (cases "zones s = []")
  case True
  then show ?thesis by (simp add: get_zone_empty)
next
  case False
  with reachable_zones [OF assms] obtain s0 age r m
    where "zones s = fst (calculate_zones s0 age r m)" by blast
  from calculate_zones_chain [OF this [symmetric]] obtain z1 z2 z3 z4 z5 where
    zs: "zones s = [(1, z1), (2, z2), (3, z3), (4, z4), (5, z5)]" and
    chain: "zone_min z1 \<le> hr \<and> zone_max z4 < hr \<longrightarrow>
        zone_max z1 < hr \<and> zone_max z2 < hr \<and> zone_max z3 < hr"
    by blast
  define z :: int where
    "z = (if hr < zone_min z1 then 0
          else if hr \<le> zone_max z1 then 1
          else if hr \<le> zone_max z2 then 2
          else if hr \<le> zone_max z3 then 3
          else if hr \<le> zone_max z4 then 4 else 5)"
  have gz: "get_zone s hr = Inr (z, s)"
    unfolding z_def by (rule get_zone_full) (simp_all add: zs)
  have range: "0 \<le> z \<and> z \<le> 5" by (simp add: z_def)
  have below: "hr < zone_min z1 \<longrightarrow> z = 0" by (simp add: z_def)
  have pos: "zone_min z1 \<le> hr \<longrightarrow> 1 \<le> z" by (simp add: z_def)
  have least: "zone_max zi < hr"
    if "1 \<le> i" "i < z" "map_of (zones s) i = Some zi" for i zi
  proof -
    have "z \<le> 5" using range by simp
    then have "i = 1 \<or> i = 2 \<or> i = 3 \<or> i = 4" using that(1,2) by linarith
    then show ?thesis using that(2,3) by (auto simp add: zs z_def split: if_splits)
  qed
  have hit: "z < 5 \<longrightarrow> (\<exists>zz. map_of (zones s) z = Some zz \<and> hr \<le> zone_max zz)"
    if "zone_min z1 \<le> hr"
    using that by (simp add: zs z_def)
  have top: "zone_max z4 < hr \<longrightarrow> z = 5" if "zone_min z1 \<le> hr"
    using that chain by (auto simp add: z_def)
  show ?thesis
    using gz range below pos least hit top False zs by blast
qed

theorem get_zone_classifies_witness:
  "reachable scenario \<and> zones scenario \<noteq> [] \<and> get_zone scenario 200 = Inr (5, scenario) \<and>
   reachable init \<and> zones init = [] \<and> get_zone init 200 = Inr (0, init)"
proof -
  have zs: "zones scenario =
      [(1, \<lparr>zone_min = 125, zone_max = 137\<rparr>), (2, \<lparr>zone_min = 138, zone_max = 150\<rparr>),
       (3, \<lparr>zone_min = 151, zone_max = 163\<rparr>), (4, \<lparr>zone_min = 164, zone_max = 176\<rparr>),
       (5, \<lparr>zone_min = 177, zone_max = 190\<rparr>)]"
    by (simp add: scenario_eq)
  have a: "get_zone scenario 200 = Inr (5, scenario)"
    using get_zone_classifies [OF reachable_scenario, of 200] by (auto simp add: zs)
  have zi: "zones init = []" by (simp add: init_def)
  have b: "get_zone init 200 = Inr (0, init)"
    using get_zone_classifies [OF reach_init, of 200] zi by auto
  show ?thesis using a b zi zs reachable_scenario reach_init by simp
qed

text \<open>
  C4. When the stored maximum heart rate exceeds the stored resting heart rate,
  \<open>calculate_wattage\<close> returns 0 for every heart rate below the resting one, and for
  every other \<open>round(base_watts * hr_reserve_used)\<close>, the float product of
  \<open>weight * 3\<close> and the float quotient \<open>(hr - restingHR) / (maxHR - restingHR)\<close>; with
  the resting heart rate 60 and the maximum 190, \<open>calculate_wattage(125, 70)\<close> is 105.
\<close>

theorem calculate_wattage_formula:
  assumes "resting_hr s < max_hr s"
  shows "(hr < resting_hr s \<longrightarrow> calculate_wattage s hr w = Inr (0, s)) \<and>
     (resting_hr s \<le> hr \<longrightarrow>
        calculate_wattage s hr w =
          Inr (py_round
                 (fmul (fmul w 3)
                    (fl (of_int (hr - resting_hr s) / of_int (max_hr s - resting_hr s)))), s)) \<and>
     (resting_hr s = 60 \<and> max_hr s = 190 \<longrightarrow> calculate_wattage s 125 70 = Inr (105, s))"
proof -
  have gen: "(hr < resting_hr s \<longrightarrow> calculate_wattage s hr w = Inr (0, s)) \<and>
     (resting_hr s \<le> hr \<longrightarrow>
        calculate_wattage s hr w =
          Inr (py_round
                 (fmul (fmul w 3)
                    (fl (of_int (hr - resting_hr s) / of_int (max_hr s - resting_hr s)))), s))"
    using assms by (simp add: calculate_wattage_def py_truediv_def Let_def)
  have conc: "resting_hr s = 60 \<and> max_hr s = 190 \<longrightarrow> calculate_wattage s 125 70 = Inr (105, s)"
    by (simp add: calculate_wattage_def py_truediv_def Let_def fmul_def lit_1_2 fl_numeral
        py_round_numeral)
  show ?thesis using gen conc by blast
qed

theorem calculate_wattage_formula_witness:
  "resting_hr scenario < max_hr scenario \<and> resting_hr scenario = 60 \<and> max_hr scenario = 190 \<and>
   calculate_wattage scenario 125 70 = Inr (105, scenario) \<and>
   calculate_wattage scenario 59 70 = Inr (0, scenario)"
proof -
  have r: "resting_hr scenario = 60" by (simp add: scenario_eq)
  have m: "max_hr scenario = 190" by (simp add: scenario_eq)
  have lt: "resting_hr scenario < max_hr scenario" by (simp add: r m)
  show ?thesis
    using calculate_wattage_formula [OF lt, of 125 70] calculate_wattage_formula [OF lt, of 59 70] r m lt
    by simp
qed




text \<open>
  C6. When the stored maximum heart rate equals the stored resting heart rate,
  \<open>calculate_wattage\<close> with a heart rate not below the resting one, and
  \<open>calculate_recovery_time\<close> with any arguments, raise ZeroDivisionError instead of
  returning a value.
\<close>

theorem zero_reserve_division_error:
  assumes "max_hr s = resting_hr s"
  shows "(resting_hr s \<le> hr \<longrightarrow> calculate_wattage s hr w = Inl ZeroDivisionError) \<and>
     calculate_recovery_time s d a = Inl ZeroDivisionError"
  using assms
  by (simp add: calculate_wattage_def calculate_recovery_time_def py_truediv_def)

theorem zero_reserve_division_error_witness:
  "reachable zero_reserve \<and> max_hr zero_reserve = resting_hr zero_reserve \<and>
   resting_hr zero_reserve \<le> 120 \<and>
   calculate_wattage zero_reserve 120 70 = Inl ZeroDivisionError \<and>
   calculate_recovery_time zero_reserve 45 120 = Inl ZeroDivisionError"
proof -
  have eq: "max_hr zero_reserve = resting_hr zero_reserve" by (simp add: zero_reserve_eq)
  have le: "resting_hr zero_reserve \<le> 120" by (simp add: zero_reserve_eq)
  show ?thesis
    using zero_reserve_division_error [OF eq, of 120 70 45 120] reachable_zero_reserve eq le
    by simp
qed

text \<open>
  C7. For every zone table that \<open>get_zone\<close> can read, \<open>calculate_zone_distribution\<close>
  on a non-empty list of samples maps each zone 0 to 5 to
  \<open>round(count / total_samples * 100)\<close>, where \<open>count\<close> is the number of samples that
  \<open>get_zone\<close> puts in that zone; on the empty list it returns 0 for each zone; and there
  are a zone table and a non-empty list of samples for which the percentages do not sum
  to 100.
\<close>

theorem zone_distribution_percentages:
  assumes "zone_table_ok (zones s)"
  shows "(xs \<noteq> [] \<longrightarrow>
      calculate_zone_distribution s xs =
        Inr (map (\<lambda>z. (z, py_round
                    (fmul (fl (of_int (int (length (filter (\<lambda>hr. get_zone s hr = Inr (z, s)) xs))) /
                               of_int (int (length xs)))) 100)))
               [0, 1, 2, 3, 4, 5], s)) \<and>
     calculate_zone_distribution s [] =
        Inr ([(0, 0), (1, 0), (2, 0), (3, 0), (4, 0), (5, 0)], s) \<and>
     (\<exists>ps. calculate_zone_distribution scenario [100, 130, 140] = Inr (ps, scenario) \<and>
           sum_list (map snd ps) \<noteq> 100)"
proof -
  have empty: "calculate_zone_distribution s [] =
        Inr ([(0, 0), (1, 0), (2, 0), (3, 0), (4, 0), (5, 0)], s)"
    by (simp add: calculate_zone_distribution_def)
  have "\<exists>ps. calculate_zone_distribution scenario [100, 130, 140] = Inr (ps, scenario) \<and>
           sum_list (map snd ps) \<noteq> 100"
    unfolding scenario_distribution by simp
  then show ?thesis using zone_distribution_nonempty [OF assms] empty by blast
qed

theorem zone_distribution_percentages_witness:
  "zone_table_ok (zones scenario) \<and> [100, 130, 140 :: int] \<noteq> [] \<and>
   calculate_zone_distribution scenario [100, 130, 140] =
     Inr ([(0, 33), (1, 33), (2, 33), (3, 0), (4, 0), (5, 0)], scenario) \<and>
   sum_list (map snd [(0 :: int, 33 :: int), (1, 33), (2, 33), (3, 0), (4, 0), (5, 0)]) = 99"
proof -
  have z: "py_round (fmul (fl 0) 100) = 0"
    by (simp add: fmul_def fl_zero py_round_zero)
  have "calculate_zone_distribution scenario [100, 130, 140] =
     Inr ([(0, 33), (1, 33), (2, 33), (3, 0), (4, 0), (5, 0)], scenario)"
    using zone_distribution_percentages [OF scenario_table_ok, of "[100, 130, 140]"]
    by (simp add: scenario_get_zone third_percent z)
  then show ?thesis using scenario_table_ok by simp
qed

text \<open>
  C8. For every fixed zone table that \<open>get_zone\<close> can read (the empty, uncalculated one
  and any table with the five zones, degenerate or not), \<open>get_zone\<close> returns normally
  and is monotonic non-decreasing in the heart rate.
\<close>

theorem get_zone_monotonic:
  assumes "zone_table_ok (zones s)" and "hr1 \<le> hr2"
  shows "\<exists>z1 z2. get_zone s hr1 = Inr (z1, s) \<and> get_zone s hr2 = Inr (z2, s) \<and> z1 \<le> z2"
proof (cases "zones s = []")
  case True
  then show ?thesis by (simp add: get_zone_empty)
next
  case False
  then obtain a b c d where
    "map_of (zones s) 1 = Some a" "map_of (zones s) 2 = Some b"
    "map_of (zones s) 3 = Some c" "map_of (zones s) 4 = Some d"
    using assms(1) by (auto simp add: zone_table_ok_def)
  then show ?thesis using assms(2) by (simp add: get_zone_full)
qed

theorem get_zone_monotonic_witness:
  "zone_table_ok (zones scenario) \<and> (130::int) \<le> 170 \<and>
   get_zone scenario 130 = Inr (1, scenario) \<and> get_zone scenario 170 = Inr (4, scenario) \<and>
   (\<exists>z1 z2. get_zone scenario 130 = Inr (z1, scenario) \<and>
            get_zone scenario 170 = Inr (z2, scenario) \<and> z1 \<le> z2)"
proof -
  have le: "(130::int) \<le> 170" by simp
  from get_zone_monotonic [OF scenario_table_ok le] scenario_table_ok le scenario_get_zone
  show ?thesis by blast
qed

text \<open>
  C9. Every method other than \<open>calculate_zones\<close> (\<open>get_zone\<close>,
  \<open>calculate_wattage\<close>, \<open>calculate_calories\<close>, \<open>calculate_recovery_time\<close>,
  \<open>calculate_zone_distribution\<close>) leaves the object as it found it; only
  \<open>calculate_zones\<close> writes, and what it writes is the zone table, the resting
  and the maximum heart rate: \<open>current_zone\<close> and \<open>weight_kg\<close> stay.
\<close>

theorem only_calculate_zones_writes:
  "(get_zone s hr = Inr (z, s1) \<longrightarrow> s1 = s) \<and>
   (calculate_wattage s hr w = Inr (p, s2) \<longrightarrow> s2 = s) \<and>
   (calculate_calories s hr d w = Inr (c, s3) \<longrightarrow> s3 = s) \<and>
   (calculate_recovery_time s d' a = Inr (t, s4) \<longrightarrow> s4 = s) \<and>
   (calculate_zone_distribution s xs = Inr (ps, s5) \<longrightarrow> s5 = s) \<and>
   (calculate_zones s age r m = (tb, s6) \<longrightarrow>
      s6 = s\<lparr>zones := tb, resting_hr := r,
              max_hr := (case m of None \<Rightarrow> 220 - age | Some v \<Rightarrow> if v = 0 then 220 - age else v)\<rparr> \<and>
      current_zone s6 = current_zone s \<and> weight_kg s6 = weight_kg s)"
proof -
  have "calculate_zones s age r m = (tb, s6) \<longrightarrow>
      s6 = s\<lparr>zones := tb, resting_hr := r,
              max_hr := (case m of None \<Rightarrow> 220 - age | Some v \<Rightarrow> if v = 0 then 220 - age else v)\<rparr> \<and>
      current_zone s6 = current_zone s \<and> weight_kg s6 = weight_kg s"
    by (auto simp add: calculate_zones_def Let_def)
  then show ?thesis
    by (auto dest: get_zone_frame calculate_wattage_frame calculate_calories_frame
        calculate_recovery_time_frame calculate_zone_distribution_frame)
qed

theorem only_calculate_zones_writes_witness:
  "get_zone scenario 130 = Inr (1, scenario) \<and>
   calculate_wattage scenario 125 70 = Inr (105, scenario) \<and>
   calculate_calories scenario 95 60 70 = Inr (245, scenario) \<and>
   calculate_recovery_time scenario 60 190 = Inr (3 / 2, scenario) \<and>
   calculate_zone_distribution scenario [100, 130, 140] =
     Inr ([(0, 33), (1, 33), (2, 33), (3, 0), (4, 0), (5, 0)], scenario) \<and>
   calculate_zones init 30 60 (Some 190) = (zones scenario, scenario) \<and>
   scenario \<noteq> init \<and> current_zone scenario = 0 \<and> weight_kg scenario = 70"
proof -
  have r: "resting_hr scenario = 60" and m: "max_hr scenario = 190"
    by (simp_all add: scenario_eq)
  have g: "get_zone scenario 130 = Inr (1, scenario)" by (rule scenario_get_zone)
  have w: "calculate_wattage scenario 125 70 = Inr (105, scenario)"
    by (simp add: calculate_wattage_def py_truediv_def Let_def fmul_def lit_1_2 fl_numeral
        py_round_numeral r m)
  have c: "calculate_calories scenario 95 60 70 = Inr (245, scenario)"
    by (simp add: calculate_calories_def py_truediv_def Let_def fmul_def lit_1_2 lit_3_5
        fl_numeral fl_one py_round_numeral r m)
  have t: "calculate_recovery_time scenario 60 190 = Inr (3 / 2, scenario)"
    by (rule scenario_recovery)
  have d: "calculate_zone_distribution scenario [100, 130, 140] =
     Inr ([(0, 33), (1, 33), (2, 33), (3, 0), (4, 0), (5, 0)], scenario)"
    by (rule scenario_distribution)
  have z: "calculate_zones init 30 60 (Some 190) = (zones scenario, scenario)"
    by (simp add: scenario_def calculate_zones_snd prod_eq_iff)
  have n: "scenario \<noteq> init" by (simp add: scenario_eq init_def)
  have i: "current_zone init = 0" "weight_kg init = 70" by (simp_all add: init_def)
  have "current_zone scenario = 0 \<and> weight_kg scenario = 70"
    using only_calculate_zones_writes [of scenario 130 1 scenario 70 105 scenario 60 245 scenario
        60 190 "3 / 2" scenario "[100, 130, 140]"
        "[(0, 33), (1, 33), (2, 33), (3, 0), (4, 0), (5, 0)]" scenario
        30 60 "Some 190" "zones scenario" scenario]
      only_calculate_zones_writes [of init 0 0 init 0 0 init 0 0 init 0 0 0 init "[]" "[]" init
        30 60 "Some 190" "zones scenario" scenario] z i
    by simp
  then show ?thesis using g w c t d z n by simp
qed



end
